theory Spec2Isabelle
  imports Complex_Main "HOL-Library.FSet"
begin

section \<open>Shallow embedding of \<open>graph.py\<close>\<close>

text \<open>
  The module defines two graph classes over a common abstract base: \<open>AdjacencySetGraph\<close>
  (a list of \<open>Node\<close> objects, each holding a set of adjacent vertex ids) and
  \<open>AdjacencyMatrixGraph\<close> (an \<open>N \<times> N\<close> numeric array). Methods that mutate the object
  take the object and return it updated, together with the outcome of the call; a raised
  exception is the left injection of the outcome.

  Vertex arguments are Python integers (\<open>int\<close>). A weight argument is a number, taken as
  the \<open>real\<close> it denotes. The array is made by \<open>np.zeros\<close>, so each cell is a 64-bit
  floating-point number: an assignment to a cell converts the weight, rounding it to the
  nearest representable number and raising when it is too large. A cell is the \<open>real\<close>
  that its floating-point number denotes; infinities and NaN are not among the weights.
\<close>

subsection \<open>Exceptions\<close>

text \<open>
  Every \<open>raise\<close> of the module is a \<open>ValueError\<close>; the constructors below tell them
  apart by the message:
  \<^item> \<open>OutOfBounds\<close>: "Vertices .. and .. are out of bounds" and "Cannot access vertex ..";
  \<^item> \<open>WeightNotSupported\<close>: "An adjacency set cannot represent edge weights >1" and
    "An edge cannot have weight < 1";
  \<^item> \<open>SelfLoopError\<close>: "The vertex .. cannot be adjacent to itself".
  \<open>IndexError\<close> is the error of an index outside a list or an array, raised by the
  indexing operation itself, \<open>NegativeDimensions\<close> the error of \<open>np.zeros\<close> on a
  negative shape, and \<open>OverflowError\<close> the error of converting a number too large for a
  64-bit floating-point cell.
\<close>

datatype error = OutOfBounds | WeightNotSupported | SelfLoopError | IndexError
  | NegativeDimensions | OverflowError

subsection \<open>Indexing and ranges\<close>

text \<open>
  \<open>xs[i]\<close> on a list and on an array axis: a negative index counts from the end, and
  an index outside \<open>[-n, n)\<close> raises. The result is the position that is read or written.
\<close>

definition index_pos :: "'a list \<Rightarrow> int \<Rightarrow> error + nat" where
  "index_pos xs i =
     (let n = int (length xs); j = (if i < 0 then i + n else i)
      in if 0 \<le> j \<and> j < n then Inr (nat j) else Inl IndexError)"

text \<open>\<open>range(n)\<close>: the integers \<open>0, ..., n - 1\<close>, none when \<open>n \<le> 0\<close>.\<close>

definition py_range :: "int \<Rightarrow> int list" where
  "py_range n = [0..n - 1]"

subsection \<open>\<open>Node\<close>\<close>

record node =
  vertexid :: int
  adjacency_set :: "int fset"

definition Node_init :: "int \<Rightarrow> node" where
  "Node_init v = \<lparr>vertexid = v, adjacency_set = {||}\<rparr>"

definition Node_add_edge :: "node \<Rightarrow> int \<Rightarrow> error + node" where
  "Node_add_edge n vertex =
     (if vertexid n = vertex then Inl SelfLoopError
      else Inr (n\<lparr>adjacency_set := finsert vertex (adjacency_set n)\<rparr>))"

definition Node_get_adjacent_vertices :: "node \<Rightarrow> int list" where
  "Node_get_adjacent_vertices n = sorted_list_of_fset (adjacency_set n)"

subsection \<open>\<open>AdjacencySetGraph\<close>\<close>

record asg =
  nbvertices :: int
  directed :: bool
  vertex_list :: "node list"

definition asg_init :: "int \<Rightarrow> bool \<Rightarrow> asg" where
  "asg_init n d = \<lparr>nbvertices = n, directed = d, vertex_list = map Node_init (py_range n)\<rparr>"

text \<open>
  \<open>self.vertex_list[i].add_edge(vertex)\<close>: the list is indexed, then the node found there
  is updated in place. Each node of the list is an object of its own, so the update is an
  update of the list at that position.
\<close>

definition asg_node_add_edge :: "asg \<Rightarrow> int \<Rightarrow> int \<Rightarrow> (error + unit) \<times> asg" where
  "asg_node_add_edge g i vertex =
     (case index_pos (vertex_list g) i of
        Inl e \<Rightarrow> (Inl e, g)
      | Inr k \<Rightarrow>
          (case Node_add_edge (vertex_list g ! k) vertex of
             Inl e \<Rightarrow> (Inl e, g)
           | Inr n' \<Rightarrow> (Inr (), g\<lparr>vertex_list := (vertex_list g)[k := n']\<rparr>)))"

definition asg_add_edge :: "asg \<Rightarrow> int \<Rightarrow> int \<Rightarrow> real \<Rightarrow> (error + unit) \<times> asg" where
  "asg_add_edge g v1 v2 weight =
     (if v1 \<ge> nbvertices g \<or> v2 \<ge> nbvertices g \<or> v1 < 0 \<or> v2 < 0
      then (Inl OutOfBounds, g)
      else if weight \<noteq> 1 then (Inl WeightNotSupported, g)
      else
        (case asg_node_add_edge g v1 v2 of
           (Inl e, g1) \<Rightarrow> (Inl e, g1)
         | (Inr _, g1) \<Rightarrow>
             if directed g1 = False then asg_node_add_edge g1 v2 v1 else (Inr (), g1)))"

definition asg_get_adjacent_vertices :: "asg \<Rightarrow> int \<Rightarrow> error + int list" where
  "asg_get_adjacent_vertices g v =
     (if v < 0 \<or> v \<ge> nbvertices g then Inl OutOfBounds
      else
        (case index_pos (vertex_list g) v of
           Inl e \<Rightarrow> Inl e
         | Inr k \<Rightarrow> Inr (Node_get_adjacent_vertices (vertex_list g ! k))))"

text \<open>The loop of \<open>get_indegree\<close> over the remaining indices, with the running count.\<close>

fun asg_indegree_loop :: "asg \<Rightarrow> int \<Rightarrow> int list \<Rightarrow> int \<Rightarrow> error + int" where
  "asg_indegree_loop g v [] indegree = Inr indegree"
| "asg_indegree_loop g v (i # rest) indegree =
     (case asg_get_adjacent_vertices g i of
        Inl e \<Rightarrow> Inl e
      | Inr adj \<Rightarrow>
          asg_indegree_loop g v rest (if v \<in> set adj then indegree + 1 else indegree))"

definition asg_get_indegree :: "asg \<Rightarrow> int \<Rightarrow> error + int" where
  "asg_get_indegree g v =
     (if v < 0 \<or> v \<ge> nbvertices g then Inl OutOfBounds
      else asg_indegree_loop g v (py_range (nbvertices g)) 0)"

definition asg_get_edge_weight :: "asg \<Rightarrow> int \<Rightarrow> int \<Rightarrow> error + real" where
  "asg_get_edge_weight g v1 v2 = Inr 1"

subsection \<open>Conversion to a 64-bit floating-point cell\<close>

text \<open>
  \<open>self.matrix[i][j] = weight\<close> stores the weight as a double: the nearest number
  \<open>n * 2 ^ (e - 52)\<close> with \<open>n\<close> an integer of at most 53 bits, ties going to the even
  \<open>n\<close>, where \<open>2 ^ e \<le> |x| < 2 ^ (e + 1)\<close> and \<open>e\<close> is not below \<open>-1022\<close>; the conversion
  raises when the rounded number reaches \<open>2 ^ 1024\<close>. \<open>bit_length\<close> is the number of binary
  digits of a positive integer, \<open>binade x\<close> the exponent \<open>e\<close> of \<open>x \<noteq> 0\<close>.
\<close>

function bit_length :: "int \<Rightarrow> nat" where
  "bit_length k = (if k \<le> 0 then 0 else Suc (bit_length (k div 2)))"
  by pat_completeness auto
termination
  by (relation "measure nat") auto

declare bit_length.simps [simp del]

definition pow2 :: "int \<Rightarrow> real" where
  "pow2 k = (if 0 \<le> k then 2 ^ nat k else 1 / 2 ^ nat (- k))"

definition binade :: "real \<Rightarrow> int" where
  "binade x =
     (if 1 \<le> \<bar>x\<bar> then int (bit_length \<lfloor>\<bar>x\<bar>\<rfloor>) - 1
      else - int (bit_length (\<lceil>1 / \<bar>x\<bar>\<rceil> - 1)))"

definition round_half_even :: "real \<Rightarrow> int" where
  "round_half_even x =
     (let n = \<lfloor>x\<rfloor>; r = x - of_int n
      in if r < 1 / 2 then n else if 1 / 2 < r then n + 1 else if even n then n else n + 1)"

definition float64_of :: "real \<Rightarrow> error + real" where
  "float64_of x =
     (if x = 0 then Inr 0
      else
        (let q = pow2 (max (binade x) (- 1022) - 52);
             y = of_int (round_half_even (\<bar>x\<bar> / q)) * q
         in if 2 ^ 1024 \<le> y then Inl OverflowError else Inr (sgn x * y)))"

subsection \<open>\<open>AdjacencyMatrixGraph\<close>\<close>

record amg =
  nbvertices_m :: int
  directed_m :: bool
  matrix :: "real list list"

text \<open>
  \<open>np.zeros((n, n))\<close> raises on a negative \<open>n\<close>; then the constructor raises and there is
  no object.
\<close>

definition amg_init :: "int \<Rightarrow> bool \<Rightarrow> error + amg" where
  "amg_init n d =
     (if n < 0 then Inl NegativeDimensions
      else Inr \<lparr>nbvertices_m = n, directed_m = d,
                matrix = replicate (nat n) (replicate (nat n) 0)\<rparr>)"

text \<open>
  \<open>m[i][j]\<close> read and \<open>m[i][j] = x\<close> written: the row is indexed, then the cell; a
  written value is converted to the cell's type.
\<close>

definition matrix_get :: "real list list \<Rightarrow> int \<Rightarrow> int \<Rightarrow> error + real" where
  "matrix_get m i j =
     (case index_pos m i of
        Inl e \<Rightarrow> Inl e
      | Inr r \<Rightarrow>
          (case index_pos (m ! r) j of
             Inl e \<Rightarrow> Inl e
           | Inr c \<Rightarrow> Inr (m ! r ! c)))"

definition matrix_set :: "real list list \<Rightarrow> int \<Rightarrow> int \<Rightarrow> real \<Rightarrow> error + real list list" where
  "matrix_set m i j x =
     (case index_pos m i of
        Inl e \<Rightarrow> Inl e
      | Inr r \<Rightarrow>
          (case index_pos (m ! r) j of
             Inl e \<Rightarrow> Inl e
           | Inr c \<Rightarrow>
               (case float64_of x of
                  Inl e \<Rightarrow> Inl e
                | Inr y \<Rightarrow> Inr (m[r := (m ! r)[c := y]]))))"

definition amg_add_edge :: "amg \<Rightarrow> int \<Rightarrow> int \<Rightarrow> real \<Rightarrow> (error + unit) \<times> amg" where
  "amg_add_edge g v1 v2 weight =
     (if v1 \<ge> nbvertices_m g \<or> v2 \<ge> nbvertices_m g \<or> v1 < 0 \<or> v2 < 0
      then (Inl OutOfBounds, g)
      else if weight < 1 then (Inl WeightNotSupported, g)
      else
        (case matrix_set (matrix g) v1 v2 weight of
           Inl e \<Rightarrow> (Inl e, g)
         | Inr m1 \<Rightarrow>
             if directed_m g = False
             then (case matrix_set m1 v2 v1 weight of
                     Inl e \<Rightarrow> (Inl e, g\<lparr>matrix := m1\<rparr>)
                   | Inr m2 \<Rightarrow> (Inr (), g\<lparr>matrix := m2\<rparr>))
             else (Inr (), g\<lparr>matrix := m1\<rparr>)))"

text \<open>The loop of \<open>get_adjacent_vertices\<close>, with the list collected so far.\<close>

fun amg_adjacent_loop :: "amg \<Rightarrow> int \<Rightarrow> int list \<Rightarrow> int list \<Rightarrow> error + int list" where
  "amg_adjacent_loop g v [] adjacent_vertices = Inr adjacent_vertices"
| "amg_adjacent_loop g v (i # rest) adjacent_vertices =
     (case matrix_get (matrix g) v i of
        Inl e \<Rightarrow> Inl e
      | Inr x \<Rightarrow>
          amg_adjacent_loop g v rest
            (if x > 0 then adjacent_vertices @ [i] else adjacent_vertices))"

definition amg_get_adjacent_vertices :: "amg \<Rightarrow> int \<Rightarrow> error + int list" where
  "amg_get_adjacent_vertices g v =
     (if v < 0 \<or> v \<ge> nbvertices_m g then Inl OutOfBounds
      else amg_adjacent_loop g v (py_range (nbvertices_m g)) [])"

fun amg_indegree_loop :: "amg \<Rightarrow> int \<Rightarrow> int list \<Rightarrow> int \<Rightarrow> error + int" where
  "amg_indegree_loop g v [] indegree = Inr indegree"
| "amg_indegree_loop g v (i # rest) indegree =
     (case matrix_get (matrix g) i v of
        Inl e \<Rightarrow> Inl e
      | Inr x \<Rightarrow> amg_indegree_loop g v rest (if x > 0 then indegree + 1 else indegree))"

definition amg_get_indegree :: "amg \<Rightarrow> int \<Rightarrow> error + int" where
  "amg_get_indegree g v =
     (if v < 0 \<or> v \<ge> nbvertices_m g then Inl OutOfBounds
      else amg_indegree_loop g v (py_range (nbvertices_m g)) 0)"

definition amg_get_edge_weight :: "amg \<Rightarrow> int \<Rightarrow> int \<Rightarrow> error + real" where
  "amg_get_edge_weight g v1 v2 = matrix_get (matrix g) v1 v2"

subsection \<open>Reachable states\<close>

text \<open>
  The states a caller can bring a graph into: the constructor's, and the state after any
  call of \<open>add_edge\<close>, returning or raising. The other methods do not assign to the object.
\<close>

inductive asg_reachable :: "asg \<Rightarrow> bool" where
  asg_reach_init: "asg_reachable (asg_init n d)"
| asg_reach_add: "asg_reachable g \<Longrightarrow> asg_reachable (snd (asg_add_edge g v1 v2 w))"

inductive amg_reachable :: "amg \<Rightarrow> bool" where
  amg_reach_init: "amg_init n d = Inr g \<Longrightarrow> amg_reachable g"
| amg_reach_add: "amg_reachable g \<Longrightarrow> amg_reachable (snd (amg_add_edge g v1 v2 w))"

text \<open>What every reachable state satisfies.\<close>

definition asg_wf :: "asg \<Rightarrow> bool" where
  "asg_wf g \<longleftrightarrow>
     length (vertex_list g) = nat (nbvertices g) \<and>
     (\<forall>k < length (vertex_list g). vertexid (vertex_list g ! k) = int k)"

definition amg_wf :: "amg \<Rightarrow> bool" where
  "amg_wf g \<longleftrightarrow>
     0 \<le> nbvertices_m g \<and>
     length (matrix g) = nat (nbvertices_m g) \<and>
     (\<forall>row \<in> set (matrix g). length row = nat (nbvertices_m g))"

section \<open>Auxiliary facts\<close>

subsection \<open>Indexing, ranges and the adjacency-set invariant\<close>

lemma index_pos_inb: "0 \<le> i \<Longrightarrow> i < int (length xs) \<Longrightarrow> index_pos xs i = Inr (nat i)"
  by (simp add: index_pos_def)

lemma length_py_range: "length (py_range n) = nat n"
  by (simp add: py_range_def)

lemma nth_py_range: "k < nat n \<Longrightarrow> py_range n ! k = int k"
  by (simp add: py_range_def)

lemma set_py_range: "set (py_range n) = {0..<n}"
  by (auto simp: py_range_def)

lemma distinct_py_range: "distinct (py_range n)"
  by (simp add: py_range_def)

lemma asg_wf_init: "asg_wf (asg_init n d)"
  by (simp add: asg_wf_def asg_init_def length_py_range nth_py_range Node_init_def)

lemma asg_node_add_edge_fields:
  "nbvertices (snd (asg_node_add_edge g i x)) = nbvertices g"
  "directed (snd (asg_node_add_edge g i x)) = directed g"
  "length (vertex_list (snd (asg_node_add_edge g i x))) = length (vertex_list g)"
  by (simp_all add: asg_node_add_edge_def split: sum.splits)

lemma index_pos_lt: "index_pos xs i = Inr k \<Longrightarrow> k < length xs"
  by (auto simp: index_pos_def Let_def split: if_splits)

lemma asg_wf_node_add_edge: "asg_wf g \<Longrightarrow> asg_wf (snd (asg_node_add_edge g i x))"
  by (auto simp: asg_wf_def asg_node_add_edge_def Node_add_edge_def nth_list_update
      dest: index_pos_lt split: sum.splits if_splits)

lemma asg_wf_add_edge: "asg_wf g \<Longrightarrow> asg_wf (snd (asg_add_edge g v1 v2 w))"
proof -
  assume wf: "asg_wf g"
  have a: "asg_wf (snd (asg_node_add_edge g v1 v2))"
    using wf by (rule asg_wf_node_add_edge)
  have b: "asg_wf (snd (asg_node_add_edge (snd (asg_node_add_edge g v1 v2)) v2 v1))"
    using a by (rule asg_wf_node_add_edge)
  show ?thesis
    using wf a b by (auto simp: asg_add_edge_def split: prod.splits sum.splits)
qed

lemma asg_reachable_wf: "asg_reachable g \<Longrightarrow> asg_wf g"
  by (induction rule: asg_reachable.induct) (simp_all add: asg_wf_init asg_wf_add_edge)

lemma asg_node_add_edge_wf:
  assumes "asg_wf g" "0 \<le> i" "i < nbvertices g"
  shows "asg_node_add_edge g i x =
     (if i = x then (Inl SelfLoopError, g)
      else (Inr (), g\<lparr>vertex_list := (vertex_list g)[nat i :=
              (vertex_list g ! nat i)\<lparr>adjacency_set := finsert x (adjacency_set (vertex_list g ! nat i))\<rparr>]\<rparr>))"
proof -
  have len: "i < int (length (vertex_list g))" using assms by (simp add: asg_wf_def)
  then have ip: "index_pos (vertex_list g) i = Inr (nat i)"
    using assms(2) by (simp add: index_pos_inb)
  have "nat i < length (vertex_list g)" using len assms(2) by simp
  then have vid: "vertexid (vertex_list g ! nat i) = i"
    using assms(1,2) by (simp add: asg_wf_def)
  show ?thesis
    by (simp add: asg_node_add_edge_def ip Node_add_edge_def vid)
qed


lemma asg_wf_index:
  assumes "asg_wf g" "0 \<le> i" "i < nbvertices g"
  shows "index_pos (vertex_list g) i = Inr (nat i)"
    and "nat i < length (vertex_list g)"
    and "vertexid (vertex_list g ! nat i) = i"
  using assms by (simp_all add: asg_wf_def index_pos_inb)

lemma asg_add_edge_selfloop:
  assumes "asg_wf g" "0 \<le> v" "v < nbvertices g"
  shows "asg_add_edge g v v 1 = (Inl SelfLoopError, g)"
  using assms by (simp add: asg_add_edge_def asg_node_add_edge_wf)

lemma asg_add_edge_ok:
  assumes wf: "asg_wf g" and b1: "0 \<le> v1" "v1 < nbvertices g"
    and b2: "0 \<le> v2" "v2 < nbvertices g" and ne: "v1 \<noteq> v2"
  shows "fst (asg_add_edge g v1 v2 1) = Inr ()"
proof -
  let ?g1 = "snd (asg_node_add_edge g v1 v2)"
  have wf1: "asg_wf ?g1" using wf by (rule asg_wf_node_add_edge)
  have nb1: "nbvertices ?g1 = nbvertices g" by (rule asg_node_add_edge_fields)
  have first: "fst (asg_node_add_edge g v1 v2) = Inr ()"
    using wf b1 ne by (simp add: asg_node_add_edge_wf)
  have second: "fst (asg_node_add_edge ?g1 v2 v1) = Inr ()"
    using wf1 b2 ne nb1 by (simp add: asg_node_add_edge_wf)
  show ?thesis
    using b1 b2 first second
    by (cases "asg_node_add_edge g v1 v2") (auto simp: asg_add_edge_def split: sum.splits)
qed

lemma asg_adjacent_after_node_add_edge:
  assumes "fst (asg_node_add_edge g i x) = Inr ()" "0 \<le> i" "i < nbvertices g"
  shows "\<exists>xs. asg_get_adjacent_vertices (snd (asg_node_add_edge g i x)) i = Inr xs \<and> x \<in> set xs"
  using assms
  by (auto simp: asg_node_add_edge_def asg_get_adjacent_vertices_def Node_add_edge_def
      Node_get_adjacent_vertices_def index_pos_def Let_def split: sum.splits if_splits)

lemma asg_adjacent_mono_node_add_edge:
  assumes "asg_get_adjacent_vertices g u = Inr xs" "y \<in> set xs"
  shows "\<exists>ys. asg_get_adjacent_vertices (snd (asg_node_add_edge g i x)) u = Inr ys \<and> y \<in> set ys"
  using assms
  by (auto simp: asg_node_add_edge_def asg_get_adjacent_vertices_def Node_add_edge_def
      Node_get_adjacent_vertices_def index_pos_def Let_def nth_list_update
      split: sum.splits if_splits)

subsection \<open>The adjacency-set graph in a well-formed state\<close>

lemma asg_add_edge_adjacent_wf:
  assumes wf: "asg_wf g" and b1: "0 \<le> v1" "v1 < nbvertices g"
    and b2: "0 \<le> v2" "v2 < nbvertices g" and ne: "v1 \<noteq> v2"
  shows "\<exists>g'. asg_add_edge g v1 v2 1 = (Inr (), g')
     \<and> (\<exists>xs. asg_get_adjacent_vertices g' v1 = Inr xs \<and> v2 \<in> set xs)
     \<and> (directed g = False \<longrightarrow> (\<exists>ys. asg_get_adjacent_vertices g' v2 = Inr ys \<and> v1 \<in> set ys))"
proof -
  let ?r1 = "asg_node_add_edge g v1 v2"
  let ?g1 = "snd ?r1"
  let ?r2 = "asg_node_add_edge ?g1 v2 v1"
  have wf1: "asg_wf ?g1" using wf by (rule asg_wf_node_add_edge)
  have nb1: "nbvertices ?g1 = nbvertices g" and d1: "directed ?g1 = directed g"
    by (rule asg_node_add_edge_fields)+
  have first: "fst ?r1 = Inr ()"
    using wf b1 ne by (simp add: asg_node_add_edge_wf)
  have second: "fst ?r2 = Inr ()"
    using wf1 b2 ne nb1 by (simp add: asg_node_add_edge_wf)
  have adj1: "\<exists>xs. asg_get_adjacent_vertices ?g1 v1 = Inr xs \<and> v2 \<in> set xs"
    using first b1 by (rule asg_adjacent_after_node_add_edge)
  have adj1': "\<exists>xs. asg_get_adjacent_vertices (snd ?r2) v1 = Inr xs \<and> v2 \<in> set xs"
    using adj1 asg_adjacent_mono_node_add_edge by blast
  have adj2: "\<exists>ys. asg_get_adjacent_vertices (snd ?r2) v2 = Inr ys \<and> v1 \<in> set ys"
    using second b2 nb1 by (intro asg_adjacent_after_node_add_edge) simp_all
  have r1: "?r1 = (Inr (), ?g1)" using first by (simp add: prod_eq_iff)
  have r2: "?r2 = (Inr (), snd ?r2)" using second by (simp add: prod_eq_iff)
  show ?thesis
  proof (cases "directed g")
    case True
    have "asg_add_edge g v1 v2 1 = (Inr (), ?g1)"
      using b1 b2 True d1 by (subst asg_add_edge_def, subst r1) simp
    then show ?thesis using adj1 True by blast
  next
    case False
    have "asg_add_edge g v1 v2 1 = (Inr (), snd ?r2)"
      using b1 b2 False d1 r2 by (subst asg_add_edge_def, subst r1) simp
    then show ?thesis using adj1' adj2 by blast
  qed
qed


lemma asg_add_edge_atomic_wf:
  assumes wf: "asg_wf g" and err: "fst (asg_add_edge g v1 v2 w) = Inl e"
  shows "snd (asg_add_edge g v1 v2 w) = g"
proof (cases "v1 \<ge> nbvertices g \<or> v2 \<ge> nbvertices g \<or> v1 < 0 \<or> v2 < 0 \<or> w \<noteq> 1")
  case True
  then show ?thesis by (auto simp: asg_add_edge_def)
next
  case False
  then have inb: "0 \<le> v1" "v1 < nbvertices g" "0 \<le> v2" "v2 < nbvertices g" and w: "w = 1"
    by auto
  show ?thesis
  proof (cases "v1 = v2")
    case True
    then show ?thesis using wf inb w by (simp add: asg_add_edge_selfloop)
  next
    case False
    then have "fst (asg_add_edge g v1 v2 1) = Inr ()"
      using wf inb by (intro asg_add_edge_ok)
    then show ?thesis using err w by simp
  qed
qed

lemma asg_node_add_edge_not_weight:
  "fst (asg_node_add_edge g i x) \<noteq> Inl WeightNotSupported"
  by (auto simp: asg_node_add_edge_def Node_add_edge_def index_pos_def Let_def
      split: sum.splits if_splits)

lemma asg_add_edge_weight_iff:
  "fst (asg_add_edge g v1 v2 w) = Inl WeightNotSupported \<longleftrightarrow>
     0 \<le> v1 \<and> v1 < nbvertices g \<and> 0 \<le> v2 \<and> v2 < nbvertices g \<and> w \<noteq> 1"
proof (cases "v1 \<ge> nbvertices g \<or> v2 \<ge> nbvertices g \<or> v1 < 0 \<or> v2 < 0 \<or> w \<noteq> 1")
  case True
  then show ?thesis by (auto simp: asg_add_edge_def)
next
  case False
  have a: "fst (asg_node_add_edge g v1 v2) \<noteq> Inl WeightNotSupported"
    by (rule asg_node_add_edge_not_weight)
  have b: "fst (asg_node_add_edge (snd (asg_node_add_edge g v1 v2)) v2 v1) \<noteq> Inl WeightNotSupported"
    by (rule asg_node_add_edge_not_weight)
  have "fst (asg_add_edge g v1 v2 w) \<noteq> Inl WeightNotSupported"
    using False a b
    by (cases "asg_node_add_edge g v1 v2") (auto simp: asg_add_edge_def split: sum.splits)
  then show ?thesis using False by auto
qed

lemma asg_indegree_loop_count:
  assumes "\<forall>i\<in>set is. \<exists>xs. asg_get_adjacent_vertices g i = Inr xs"
  shows "asg_indegree_loop g v is n =
     Inr (n + int (length (filter
        (\<lambda>u. \<exists>xs. asg_get_adjacent_vertices g u = Inr xs \<and> v \<in> set xs) is)))"
  using assms by (induction "is" arbitrary: n) auto

lemma asg_adjacent_defined:
  assumes "asg_wf g" "0 \<le> u" "u < nbvertices g"
  shows "\<exists>xs. asg_get_adjacent_vertices g u = Inr xs"
  using assms by (simp add: asg_get_adjacent_vertices_def asg_wf_index)

lemma asg_indegree_card:
  assumes wf: "asg_wf g" and inb: "0 \<le> v" "v < nbvertices g"
  shows "asg_get_indegree g v =
     Inr (int (card {u. 0 \<le> u \<and> u < nbvertices g \<and>
        (\<exists>xs. asg_get_adjacent_vertices g u = Inr xs \<and> v \<in> set xs)}))"
proof -
  let ?P = "\<lambda>u. \<exists>xs. asg_get_adjacent_vertices g u = Inr xs \<and> v \<in> set xs"
  have ok: "\<forall>i\<in>set (py_range (nbvertices g)). \<exists>xs. asg_get_adjacent_vertices g i = Inr xs"
    using wf by (auto simp: set_py_range intro: asg_adjacent_defined)
  have "length (filter ?P (py_range (nbvertices g))) = card ({u. ?P u} \<inter> set (py_range (nbvertices g)))"
    using distinct_py_range by (rule distinct_length_filter)
  also have "{u. ?P u} \<inter> set (py_range (nbvertices g)) = {u. 0 \<le> u \<and> u < nbvertices g \<and> ?P u}"
    by (auto simp: set_py_range)
  finally have len: "length (filter ?P (py_range (nbvertices g))) =
      card {u. 0 \<le> u \<and> u < nbvertices g \<and> ?P u}" .
  show ?thesis
    using inb by (simp add: asg_get_indegree_def asg_indegree_loop_count [OF ok] len)
qed

lemma asg_add_edge_idem_wf:
  assumes wf: "asg_wf g" and ok: "fst (asg_add_edge g v1 v2 w) = Inr ()"
  shows "asg_add_edge (snd (asg_add_edge g v1 v2 w)) v1 v2 w = asg_add_edge g v1 v2 w"
proof -
  have inb: "0 \<le> v1" "v1 < nbvertices g" "0 \<le> v2" "v2 < nbvertices g" and w: "w = 1"
    using ok by (auto simp: asg_add_edge_def split: if_splits)
  have ne: "v1 \<noteq> v2"
    using ok wf inb w by (auto simp: asg_add_edge_selfloop)
  let ?g1 = "snd (asg_node_add_edge g v1 v2)"
  have wf1: "asg_wf ?g1" using wf by (rule asg_wf_node_add_edge)
  have wf': "asg_wf (snd (asg_add_edge g v1 v2 w))" using wf by (rule asg_wf_add_edge)
  show ?thesis
    using wf inb ne w
    apply (simp add: asg_add_edge_def asg_node_add_edge_wf asg_wf_def nth_list_update)
    apply (auto simp: asg_node_add_edge_def index_pos_inb Node_add_edge_def nth_list_update list_update_swap)
    done
qed

subsection \<open>Conversion to a floating-point cell\<close>

lemma bit_length_pos: "0 < k \<Longrightarrow> 0 < bit_length k"
  by (subst bit_length.simps) simp

lemma bit_length_bounds:
  "0 < k \<Longrightarrow> 2 ^ (bit_length k - 1) \<le> k \<and> k < 2 ^ bit_length k"
proof (induction k rule: bit_length.induct)
  case (1 k)
  have bl: "bit_length k = Suc (bit_length (k div 2))"
    using "1.prems" by (subst bit_length.simps) simp
  show ?case
  proof (cases "k div 2 = 0")
    case True
    then have k1: "k = 1" using "1.prems" by presburger
    have "bit_length (k div 2) = 0" using True by (subst bit_length.simps) simp
    then have "bit_length k = Suc 0" using bl by simp
    then show ?thesis using k1 by simp
  next
    case False
    then have pos: "0 < k div 2" using "1.prems" by presburger
    have ih: "2 ^ (bit_length (k div 2) - 1) \<le> k div 2 \<and> k div 2 < 2 ^ bit_length (k div 2)"
      using "1.IH" "1.prems" pos by simp
    obtain b where b: "bit_length (k div 2) = Suc b"
      using bit_length_pos [OF pos] by (cases "bit_length (k div 2)") auto
    have lo: "(2::int) ^ b \<le> k div 2" and hi: "k div 2 < 2 * 2 ^ b"
      using ih by (simp_all add: b)
    have "2 * 2 ^ b \<le> k" using lo by presburger
    moreover have "k < 2 * (2 * 2 ^ b)" using hi by presburger
    ultimately show ?thesis by (simp add: bl b)
  qed
qed



lemma round_half_even_int: "round_half_even (of_int m) = m"
  by (simp add: round_half_even_def)



lemma pow2_pos: "0 < pow2 k"
  by (simp add: pow2_def)

lemma float64_of_int_exact:
  assumes "1 \<le> k" "k \<le> 2 ^ 53"
  shows "float64_of (of_int k) = Inr (of_int k)"
proof -
  let ?x = "of_int k :: real"
  have pos: "0 < k" using assms(1) by simp
  define b where "b = bit_length k"
  have bb: "2 ^ (b - 1) \<le> k" "k < 2 ^ b" and bpos: "0 < b"
    using bit_length_bounds [OF pos] bit_length_pos [OF pos] by (simp_all add: b_def)
  have "(2::int) ^ (b - 1) \<le> 2 ^ 53" using bb(1) assms(2) by linarith
  then have b54: "b - 1 \<le> 53" by (simp only: power_increasing_iff) 
  have bin: "binade ?x = int b - 1"
    using assms(1) by (simp add: binade_def b_def)
  have small: "?x < 2 ^ 1024"
  proof -
    have "?x \<le> 2 ^ 53" using assms(2) by (metis of_int_le_iff of_int_numeral of_int_power)
    also have "\<dots> < (2::real) ^ 1024" by (simp only: power_strict_increasing_iff)
    finally show ?thesis .
  qed
  define Q where "Q = pow2 (int b - 1 - 52)"
  have y: "of_int (round_half_even (\<bar>?x\<bar> / Q)) * Q = ?x"
  proof (cases "b - 1 \<le> 52")
    case True
    define d where "d = 52 - (b - 1)"
    have "int b - 1 - 52 = - int d" using True bpos by (simp add: d_def)
    then have q: "Q = 1 / 2 ^ d" unfolding Q_def by (simp add: pow2_def)
    have "\<bar>?x\<bar> / Q = of_int (k * 2 ^ d)" using pos by (simp add: q)
    then have "round_half_even (\<bar>?x\<bar> / Q) = k * 2 ^ d"
      by (simp only: round_half_even_int)
    then show ?thesis by (simp add: q)
  next
    case False
    then have b: "b = 54" using b54 by linarith
    then have "(2::int) ^ 53 \<le> k" using bb(1) by simp
    then have k: "k = 2 ^ 53" using assms(2) by linarith
    have q: "Q = 2" by (simp add: Q_def b pow2_def)
    have "\<bar>?x\<bar> / Q = of_int (2 ^ 52)" by (simp add: k q)
    then have "round_half_even (\<bar>?x\<bar> / Q) = 2 ^ 52" by (simp only: round_half_even_int)
    then show ?thesis by (simp add: q k)
  qed
  have arg: "pow2 (max (binade ?x) (- 1022) - 52) = Q" using bin by (simp add: Q_def)
  have nz: "?x \<noteq> 0" using pos by simp
  have sg: "sgn ?x = 1" using pos by simp
  show ?thesis
    unfolding float64_of_def Let_def arg y using nz small sg by simp
qed


lemma float64_of_error: "float64_of x = Inl e \<Longrightarrow> e = OverflowError"
  by (auto simp: float64_of_def Let_def split: if_splits)


subsection \<open>The shape of the matrix\<close>

lemma amg_wf_init: "amg_init n d = Inr g \<Longrightarrow> amg_wf g"
  by (auto simp: amg_init_def amg_wf_def split: if_splits)

lemma matrix_get_inb:
  assumes "length m = n" "\<forall>row\<in>set m. length row = n"
    and "0 \<le> i" "i < int n" "0 \<le> j" "j < int n"
  shows "matrix_get m i j = Inr (m ! nat i ! nat j)"
proof -
  have r: "index_pos m i = Inr (nat i)" using assms by (simp add: index_pos_inb)
  have "nat i < length m" using assms by simp
  then have "length (m ! nat i) = n" using assms(2) by simp
  then have c: "index_pos (m ! nat i) j = Inr (nat j)" using assms by (simp add: index_pos_inb)
  show ?thesis by (simp add: matrix_get_def r c)
qed

lemma matrix_set_inb:
  assumes "length m = n" "\<forall>row\<in>set m. length row = n"
    and "0 \<le> i" "i < int n" "0 \<le> j" "j < int n"
  shows "matrix_set m i j x =
     (case float64_of x of
        Inl e \<Rightarrow> Inl e
      | Inr y \<Rightarrow> Inr (m[nat i := (m ! nat i)[nat j := y]]))"
proof -
  have r: "index_pos m i = Inr (nat i)" using assms by (simp add: index_pos_inb)
  have "nat i < length m" using assms by simp
  then have "length (m ! nat i) = n" using assms(2) by simp
  then have c: "index_pos (m ! nat i) j = Inr (nat j)" using assms by (simp add: index_pos_inb)
  show ?thesis by (simp add: matrix_set_def r c)
qed

lemma matrix_shape_update:
  assumes "length m = n" "\<forall>row\<in>set m. length row = n"
  shows "length (m[r := (m ! r)[c := x]]) = n"
    and "\<forall>row\<in>set (m[r := (m ! r)[c := x]]). length row = n"
proof -
  show "length (m[r := (m ! r)[c := x]]) = n" using assms(1) by simp
  show "\<forall>row\<in>set (m[r := (m ! r)[c := x]]). length row = n"
  proof (cases "r < length m")
    case True
    then have "m ! r \<in> set m" by simp
    then have new: "length ((m ! r)[c := x]) = n" using assms(2) by simp
    have sub: "set (m[r := (m ! r)[c := x]]) \<subseteq> insert ((m ! r)[c := x]) (set m)"
      by (rule set_update_subset_insert)
    show ?thesis
    proof
      fix row assume "row \<in> set (m[r := (m ! r)[c := x]])"
      then have "row = (m ! r)[c := x] \<or> row \<in> set m" using sub by blast
      then show "length row = n" using new assms(2) by blast
    qed
  next
    case False
    then have "length m \<le> r" by simp
    then have "m[r := (m ! r)[c := x]] = m" by (rule list_update_beyond)
    then show ?thesis using assms(2) by simp
  qed
qed

lemma matrix_set_shape:
  assumes "length m = n" "\<forall>row\<in>set m. length row = n" "matrix_set m i j x = Inr m'"
  shows "length m' = n \<and> (\<forall>row\<in>set m'. length row = n)"
proof -
  obtain r c y where "m' = m[r := (m ! r)[c := y]]"
    using assms(3) by (auto simp: matrix_set_def split: sum.splits)
  then show ?thesis using matrix_shape_update [OF assms(1,2)] by simp
qed

lemma amg_add_edge_fields:
  "nbvertices_m (snd (amg_add_edge g v1 v2 w)) = nbvertices_m g"
  "directed_m (snd (amg_add_edge g v1 v2 w)) = directed_m g"
  by (simp_all add: amg_add_edge_def split: sum.splits)

lemma amg_wf_add_edge:
  assumes wf: "amg_wf g"
  shows "amg_wf (snd (amg_add_edge g v1 v2 w))"
proof -
  let ?n = "nat (nbvertices_m g)"
  have sh: "length (matrix g) = ?n" "\<forall>row\<in>set (matrix g). length row = ?n"
    and nn: "0 \<le> nbvertices_m g"
    using wf by (simp_all add: amg_wf_def)
  have keep: "amg_wf (g\<lparr>matrix := m'\<rparr>)"
    if "length m' = ?n \<and> (\<forall>row\<in>set m'. length row = ?n)" for m'
    using that nn by (simp add: amg_wf_def)
  show ?thesis
  proof (cases "matrix_set (matrix g) v1 v2 w")
    case (Inl e)
    then show ?thesis using wf by (simp add: amg_add_edge_def)
  next
    case (Inr m1)
    have sh1: "length m1 = ?n \<and> (\<forall>row\<in>set m1. length row = ?n)"
      using sh Inr by (rule matrix_set_shape)
    show ?thesis
    proof (cases "matrix_set m1 v2 v1 w")
      case (Inl e)
      then show ?thesis using wf Inr keep [OF sh1] by (simp add: amg_add_edge_def)
    next
      case m2: (Inr m2)
      have sh2: "length m2 = ?n \<and> (\<forall>row\<in>set m2. length row = ?n)"
        using sh1 [THEN conjunct1] sh1 [THEN conjunct2] m2 by (rule matrix_set_shape)
      show ?thesis using wf Inr m2 keep [OF sh1] keep [OF sh2] by (simp add: amg_add_edge_def)
    qed
  qed
qed

lemma amg_reachable_wf: "amg_reachable g \<Longrightarrow> amg_wf g"
  by (induction rule: amg_reachable.induct) (simp_all add: amg_wf_init amg_wf_add_edge)

subsection \<open>The matrix graph in a well-formed state\<close>

lemma amg_wf_shape:
  assumes "amg_wf g"
  shows "length (matrix g) = nat (nbvertices_m g)"
    and "\<forall>row\<in>set (matrix g). length row = nat (nbvertices_m g)"
  using assms by (simp_all add: amg_wf_def)

lemma amg_wf_bound: "v < nbvertices_m g \<Longrightarrow> v < int (nat (nbvertices_m g))"
  by simp

lemma amg_matrix_set_wf:
  assumes wf: "amg_wf g" and inb: "0 \<le> v1" "v1 < nbvertices_m g" "0 \<le> v2" "v2 < nbvertices_m g"
  shows "matrix_set (matrix g) v1 v2 w =
     (case float64_of w of
        Inl e \<Rightarrow> Inl e
      | Inr y \<Rightarrow> Inr ((matrix g)[nat v1 := (matrix g ! nat v1)[nat v2 := y]]))"
  by (rule matrix_set_inb [OF amg_wf_shape [OF wf] inb(1) amg_wf_bound [OF inb(2)]
        inb(3) amg_wf_bound [OF inb(4)]])

lemma amg_add_edge_overflow_wf:
  assumes wf: "amg_wf g" and inb: "0 \<le> v1" "v1 < nbvertices_m g" "0 \<le> v2" "v2 < nbvertices_m g"
    and w: "1 \<le> w" and fl: "float64_of w = Inl e"
  shows "amg_add_edge g v1 v2 w = (Inl e, g)"
  using inb w by (simp add: amg_add_edge_def amg_matrix_set_wf [OF wf inb] fl)

lemma amg_add_edge_wf_directed:
  assumes wf: "amg_wf g" and inb: "0 \<le> v1" "v1 < nbvertices_m g" "0 \<le> v2" "v2 < nbvertices_m g"
    and w: "1 \<le> w" and d: "directed_m g" and fl: "float64_of w = Inr y"
  shows "amg_add_edge g v1 v2 w =
     (Inr (), g\<lparr>matrix := (matrix g)[nat v1 := (matrix g ! nat v1)[nat v2 := y]]\<rparr>)"
  using inb w d by (simp add: amg_add_edge_def amg_matrix_set_wf [OF wf inb] fl)

lemma amg_add_edge_wf_undirected:
  assumes wf: "amg_wf g" and inb: "0 \<le> v1" "v1 < nbvertices_m g" "0 \<le> v2" "v2 < nbvertices_m g"
    and w: "1 \<le> w" and d: "\<not> directed_m g" and fl: "float64_of w = Inr y"
    and m1: "m1 = (matrix g)[nat v1 := (matrix g ! nat v1)[nat v2 := y]]"
  shows "amg_add_edge g v1 v2 w = (Inr (), g\<lparr>matrix := m1[nat v2 := (m1 ! nat v2)[nat v1 := y]]\<rparr>)"
proof -
  let ?n = "nat (nbvertices_m g)"
  have s1: "matrix_set (matrix g) v1 v2 w = Inr m1"
    unfolding m1 by (simp add: amg_matrix_set_wf [OF wf inb] fl)
  have sh1: "length m1 = ?n" "\<forall>row\<in>set m1. length row = ?n"
    unfolding m1 using amg_wf_shape [OF wf] by (rule matrix_shape_update)+
  have "matrix_set m1 v2 v1 w =
     (case float64_of w of
        Inl e \<Rightarrow> Inl e
      | Inr y \<Rightarrow> Inr (m1[nat v2 := (m1 ! nat v2)[nat v1 := y]]))"
    by (rule matrix_set_inb [OF sh1 inb(3) amg_wf_bound [OF inb(4)]
          inb(1) amg_wf_bound [OF inb(2)]])
  then have s2: "matrix_set m1 v2 v1 w = Inr (m1[nat v2 := (m1 ! nat v2)[nat v1 := y]])"
    by (simp add: fl)
  show ?thesis using inb w d by (simp add: amg_add_edge_def s1 s2)
qed

lemma amg_get_edge_weight_wf:
  assumes wf: "amg_wf g" and inb: "0 \<le> v1" "v1 < nbvertices_m g" "0 \<le> v2" "v2 < nbvertices_m g"
  shows "amg_get_edge_weight g v1 v2 = Inr (matrix g ! nat v1 ! nat v2)"
  unfolding amg_get_edge_weight_def
  by (rule matrix_get_inb [OF amg_wf_shape [OF wf] inb(1) amg_wf_bound [OF inb(2)]
        inb(3) amg_wf_bound [OF inb(4)]])

lemma amg_add_edge_weight_wf:
  assumes wf: "amg_wf g" and inb: "0 \<le> v1" "v1 < nbvertices_m g" "0 \<le> v2" "v2 < nbvertices_m g"
    and w: "1 \<le> w" and fl: "float64_of w = Inr y"
  shows "\<exists>g'. amg_add_edge g v1 v2 w = (Inr (), g')
     \<and> amg_get_edge_weight g' v1 v2 = Inr y
     \<and> (directed_m g = False \<longrightarrow> amg_get_edge_weight g' v2 v1 = Inr y)"
proof -
  let ?g' = "snd (amg_add_edge g v1 v2 w)"
  let ?m = "matrix g"
  have wf': "amg_wf ?g'" using wf by (rule amg_wf_add_edge)
  have nb: "nbvertices_m ?g' = nbvertices_m g" by (rule amg_add_edge_fields)
  have l1: "nat v1 < length ?m" and l2: "nat v2 < length ?m"
    using amg_wf_shape(1) [OF wf] inb by simp_all
  have r1: "nat v2 < length (?m ! nat v1)" and r2: "nat v1 < length (?m ! nat v2)"
    using amg_wf_shape [OF wf] inb l1 l2 by simp_all
  have gw12: "amg_get_edge_weight ?g' v1 v2 = Inr (matrix ?g' ! nat v1 ! nat v2)"
    using wf' inb nb by (intro amg_get_edge_weight_wf) simp_all
  have gw21: "amg_get_edge_weight ?g' v2 v1 = Inr (matrix ?g' ! nat v2 ! nat v1)"
    using wf' inb nb by (intro amg_get_edge_weight_wf) simp_all
  show ?thesis
  proof (cases "directed_m g")
    case True
    have eq: "amg_add_edge g v1 v2 w =
        (Inr (), g\<lparr>matrix := ?m[nat v1 := (?m ! nat v1)[nat v2 := y]]\<rparr>)"
      using wf inb w True fl by (rule amg_add_edge_wf_directed)
    have "matrix ?g' ! nat v1 ! nat v2 = y" using l1 r1 by (simp add: eq)
    then show ?thesis using eq gw12 True by simp
  next
    case False
    define m1 where "m1 = ?m[nat v1 := (?m ! nat v1)[nat v2 := y]]"
    have eq: "amg_add_edge g v1 v2 w = (Inr (), g\<lparr>matrix := m1[nat v2 := (m1 ! nat v2)[nat v1 := y]]\<rparr>)"
      using wf inb w False fl m1_def by (rule amg_add_edge_wf_undirected)
    have lm1: "length m1 = length ?m" by (simp add: m1_def)
    have row1: "m1 ! nat v1 = (?m ! nat v1)[nat v2 := y]" using l1 by (simp add: m1_def)
    have c21: "matrix ?g' ! nat v2 ! nat v1 = y"
      using l2 r2 l1 lm1 by (simp add: eq) (simp add: m1_def nth_list_update)
    have c12: "matrix ?g' ! nat v1 ! nat v2 = y"
    proof (cases "v1 = v2")
      case True
      then show ?thesis using c21 by simp
    next
      case ne: False
      then have "nat v1 \<noteq> nat v2" using inb by simp
      then show ?thesis using l1 r1 row1 by (simp add: eq)
    qed
    show ?thesis using eq gw12 gw21 c12 c21 by simp
  qed
qed

lemma amg_add_edge_atomic_wf:
  assumes wf: "amg_wf g" and err: "fst (amg_add_edge g v1 v2 w) = Inl e"
  shows "snd (amg_add_edge g v1 v2 w) = g"
proof (cases "v1 \<ge> nbvertices_m g \<or> v2 \<ge> nbvertices_m g \<or> v1 < 0 \<or> v2 < 0 \<or> w < 1")
  case True
  then show ?thesis by (auto simp: amg_add_edge_def)
next
  case False
  then have inb: "0 \<le> v1" "v1 < nbvertices_m g" "0 \<le> v2" "v2 < nbvertices_m g"
    and w: "1 \<le> w" by auto
  show ?thesis
  proof (cases "float64_of w")
    case (Inl e')
    then show ?thesis using amg_add_edge_overflow_wf [OF wf inb w] by simp
  next
    case (Inr y)
    then have "\<exists>g'. amg_add_edge g v1 v2 w = (Inr (), g')
       \<and> amg_get_edge_weight g' v1 v2 = Inr y
       \<and> (directed_m g = False \<longrightarrow> amg_get_edge_weight g' v2 v1 = Inr y)"
      using wf inb w by (intro amg_add_edge_weight_wf)
    then show ?thesis using err by auto
  qed
qed

lemma matrix_set_not_weight: "matrix_set m i j x \<noteq> Inl WeightNotSupported"
  by (auto simp: matrix_set_def index_pos_def Let_def split: sum.splits if_splits
      dest: float64_of_error)

lemma amg_add_edge_weight_iff:
  "fst (amg_add_edge g v1 v2 w) = Inl WeightNotSupported \<longleftrightarrow>
     0 \<le> v1 \<and> v1 < nbvertices_m g \<and> 0 \<le> v2 \<and> v2 < nbvertices_m g \<and> w < 1"
proof (cases "v1 \<ge> nbvertices_m g \<or> v2 \<ge> nbvertices_m g \<or> v1 < 0 \<or> v2 < 0 \<or> w < 1")
  case True
  then show ?thesis by (auto simp: amg_add_edge_def)
next
  case False
  have "fst (amg_add_edge g v1 v2 w) \<noteq> Inl WeightNotSupported"
    using False matrix_set_not_weight
    by (auto simp: amg_add_edge_def split: sum.splits)
  then show ?thesis using False by auto
qed

subsection \<open>Degrees, repeated calls and unchecked indexing in the matrix graph\<close>

lemma amg_adjacent_loop_filter:
  assumes "\<forall>i\<in>set is. matrix_get (matrix g) v i = Inr (matrix g ! nat v ! nat i)"
  shows "amg_adjacent_loop g v is acc =
     Inr (acc @ filter (\<lambda>i. matrix g ! nat v ! nat i > 0) is)"
  using assms by (induction "is" arbitrary: acc) auto

lemma amg_indegree_loop_count:
  assumes "\<forall>i\<in>set is. matrix_get (matrix g) i v = Inr (matrix g ! nat i ! nat v)"
  shows "amg_indegree_loop g v is n =
     Inr (n + int (length (filter (\<lambda>i. matrix g ! nat i ! nat v > 0) is)))"
  using assms by (induction "is" arbitrary: n) auto

lemma amg_matrix_get_wf:
  assumes wf: "amg_wf g" and inb: "0 \<le> v1" "v1 < nbvertices_m g" "0 \<le> v2" "v2 < nbvertices_m g"
  shows "matrix_get (matrix g) v1 v2 = Inr (matrix g ! nat v1 ! nat v2)"
  using amg_get_edge_weight_wf [OF wf inb] by (simp add: amg_get_edge_weight_def)

lemma amg_get_adjacent_vertices_wf:
  assumes wf: "amg_wf g" and inb: "0 \<le> u" "u < nbvertices_m g"
  shows "amg_get_adjacent_vertices g u =
     Inr (filter (\<lambda>i. matrix g ! nat u ! nat i > 0) (py_range (nbvertices_m g)))"
proof -
  have "\<forall>i\<in>set (py_range (nbvertices_m g)).
      matrix_get (matrix g) u i = Inr (matrix g ! nat u ! nat i)"
    using wf inb by (simp add: set_py_range amg_matrix_get_wf)
  then show ?thesis
    using inb by (simp add: amg_get_adjacent_vertices_def amg_adjacent_loop_filter)
qed

lemma amg_indegree_card:
  assumes wf: "amg_wf g" and inb: "0 \<le> v" "v < nbvertices_m g"
  shows "amg_get_indegree g v =
     Inr (int (card {u. 0 \<le> u \<and> u < nbvertices_m g \<and>
        (\<exists>xs. amg_get_adjacent_vertices g u = Inr xs \<and> v \<in> set xs)}))"
proof -
  let ?N = "nbvertices_m g"
  let ?Q = "\<lambda>u. matrix g ! nat u ! nat v > 0"
  let ?P = "\<lambda>u. \<exists>xs. amg_get_adjacent_vertices g u = Inr xs \<and> v \<in> set xs"
  have ok: "\<forall>i\<in>set (py_range ?N). matrix_get (matrix g) i v = Inr (matrix g ! nat i ! nat v)"
    using wf inb by (simp add: set_py_range amg_matrix_get_wf)
  have PQ: "?P u \<longleftrightarrow> ?Q u" if "0 \<le> u" "u < ?N" for u
    using inb by (simp add: amg_get_adjacent_vertices_wf [OF wf that] set_py_range)
  have "length (filter ?Q (py_range ?N)) = card ({u. ?Q u} \<inter> set (py_range ?N))"
    using distinct_py_range by (rule distinct_length_filter)
  also have "{u. ?Q u} \<inter> set (py_range ?N) = {u. 0 \<le> u \<and> u < ?N \<and> ?P u}"
    using PQ by (auto simp: set_py_range)
  finally have len: "length (filter ?Q (py_range ?N)) = card {u. 0 \<le> u \<and> u < ?N \<and> ?P u}" .
  show ?thesis
    using inb by (simp add: amg_get_indegree_def amg_indegree_loop_count [OF ok] len)
qed

lemma cell_update_same: "m ! i ! j = x \<Longrightarrow> m[i := (m ! i)[j := x]] = m"
  by auto

lemma amg_add_edge_idem_wf:
  assumes wf: "amg_wf g" and ok: "fst (amg_add_edge g v1 v2 w) = Inr ()"
  shows "amg_add_edge (snd (amg_add_edge g v1 v2 w)) v1 v2 w = amg_add_edge g v1 v2 w"
proof -
  have inb: "0 \<le> v1" "v1 < nbvertices_m g" "0 \<le> v2" "v2 < nbvertices_m g" and w: "1 \<le> w"
    using ok by (auto simp: amg_add_edge_def split: if_splits)
  obtain y where fl: "float64_of w = Inr y"
  proof (cases "float64_of w")
    case (Inl e)
    then have "fst (amg_add_edge g v1 v2 w) = Inl e"
      using amg_add_edge_overflow_wf [OF wf inb w] by simp
    then show ?thesis using ok by simp
  next
    case (Inr y)
    then show ?thesis by (rule that)
  qed
  obtain g' where eq: "amg_add_edge g v1 v2 w = (Inr (), g')"
    and w12: "amg_get_edge_weight g' v1 v2 = Inr y"
    and w21: "directed_m g = False \<longrightarrow> amg_get_edge_weight g' v2 v1 = Inr y"
    using amg_add_edge_weight_wf [OF wf inb w fl] by blast
  have g': "g' = snd (amg_add_edge g v1 v2 w)" by (simp add: eq)
  have wf': "amg_wf g'" unfolding g' using wf by (rule amg_wf_add_edge)
  have nb: "nbvertices_m g' = nbvertices_m g" and d: "directed_m g' = directed_m g"
    unfolding g' by (rule amg_add_edge_fields)+
  have inb': "0 \<le> v1" "v1 < nbvertices_m g'" "0 \<le> v2" "v2 < nbvertices_m g'"
    using inb nb by simp_all
  have c12: "matrix g' ! nat v1 ! nat v2 = y"
    using w12 amg_get_edge_weight_wf [OF wf' inb'] by simp
  have same1: "(matrix g')[nat v1 := (matrix g' ! nat v1)[nat v2 := y]] = matrix g'"
    using c12 by (rule cell_update_same)
  have "amg_add_edge g' v1 v2 w = (Inr (), g')"
  proof (cases "directed_m g")
    case True
    then have "directed_m g'" using d by simp
    then show ?thesis
      using amg_add_edge_wf_directed [OF wf' inb' w _ fl] by (simp add: same1)
  next
    case False
    then have nd: "\<not> directed_m g'" using d by simp
    have c21: "matrix g' ! nat v2 ! nat v1 = y"
      using w21 False amg_get_edge_weight_wf [OF wf' inb'(3,4) inb'(1,2)] by simp
    have same2: "(matrix g')[nat v2 := (matrix g' ! nat v2)[nat v1 := y]] = matrix g'"
      using c21 by (rule cell_update_same)
    show ?thesis
      using amg_add_edge_wf_undirected [OF wf' inb' w nd fl same1 [symmetric]]
      by (simp add: same2)
  qed
  then show ?thesis by (simp add: eq)
qed

lemma index_pos_cases:
  "index_pos xs i =
     (if - int (length xs) \<le> i \<and> i < int (length xs)
      then Inr (nat (if i < 0 then i + int (length xs) else i)) else Inl IndexError)"
  by (auto simp: index_pos_def Let_def)

lemma amg_get_edge_weight_cases:
  assumes wf: "amg_wf g"
  shows "amg_get_edge_weight g v1 v2 =
     (if - nbvertices_m g \<le> v1 \<and> v1 < nbvertices_m g \<and> - nbvertices_m g \<le> v2 \<and> v2 < nbvertices_m g
      then Inr (matrix g ! nat (if v1 < 0 then v1 + nbvertices_m g else v1)
                         ! nat (if v2 < 0 then v2 + nbvertices_m g else v2))
      else Inl IndexError)"
proof -
  let ?N = "nbvertices_m g"
  have nn: "0 \<le> ?N" and len: "int (length (matrix g)) = ?N"
    using wf by (simp_all add: amg_wf_def)
  have rows: "int (length (matrix g ! r)) = ?N" if "r < length (matrix g)" for r
    using wf that by (simp add: amg_wf_def)
  show ?thesis
  proof (cases "- ?N \<le> v1 \<and> v1 < ?N")
    case False
    then show ?thesis
      by (auto simp: amg_get_edge_weight_def matrix_get_def index_pos_cases len)
  next
    case True
    let ?r = "nat (if v1 < 0 then v1 + ?N else v1)"
    have r: "index_pos (matrix g) v1 = Inr ?r"
      using True by (simp add: index_pos_cases len)
    have "?r < length (matrix g)" using r by (rule index_pos_lt)
    then have rl: "int (length (matrix g ! ?r)) = ?N" by (rule rows)
    let ?c = "nat (if v2 < 0 then v2 + ?N else v2)"
    have c: "index_pos (matrix g ! ?r) v2 =
        (if - ?N \<le> v2 \<and> v2 < ?N then Inr ?c else Inl IndexError)"
      by (simp only: index_pos_cases rl)
    have "amg_get_edge_weight g v1 v2 =
        (case index_pos (matrix g ! ?r) v2 of Inl e \<Rightarrow> Inl e | Inr c \<Rightarrow> Inr (matrix g ! ?r ! c))"
      by (simp only: amg_get_edge_weight_def matrix_get_def r sum.case)
    also have "\<dots> = (if - ?N \<le> v2 \<and> v2 < ?N then Inr (matrix g ! ?r ! ?c) else Inl IndexError)"
      by (simp only: c if_distrib [of "case_sum Inl (\<lambda>c. Inr (matrix g ! ?r ! c))"] sum.case)
    finally show ?thesis using True by simp
  qed
qed

lemma float64_of_small:
  "float64_of 43 = Inr 43" "float64_of 55 = Inr 55" "float64_of 10 = Inr 10"
  "float64_of 5 = Inr 5"
  using float64_of_int_exact [of 43] float64_of_int_exact [of 55] float64_of_int_exact [of 10]
    float64_of_int_exact [of 5]
  by simp_all


section \<open>Properties\<close>

text \<open>
  C9. In the adjacency-set representation \<open>get_edge_weight\<close> returns 1 for every pair of
  arguments and every graph: it reads neither the arguments nor the graph, so it checks no
  bounds and raises nothing, also for vertices outside \<open>[0, N)\<close> and for pairs with no
  edge; the value 0 that stands for "no edge" in the matrix representation is never
  returned.
\<close>

theorem asg_get_edge_weight_always_one:
  "asg_get_edge_weight g v1 v2 = Inr 1 \<and> asg_get_edge_weight g v1 v2 \<noteq> Inr 0
   \<and> (\<forall>e. asg_get_edge_weight g v1 v2 \<noteq> Inl e)"
  by (simp add: asg_get_edge_weight_def)




text \<open>
  C2. Adjacency set: in every reachable graph, for in-bounds \<open>v1 \<noteq> v2\<close>,
  \<open>add_edge(v1, v2)\<close> (the weight defaults to 1) returns, and afterwards
  \<open>get_adjacent_vertices(v1)\<close> contains \<open>v2\<close>; in an undirected graph
  \<open>get_adjacent_vertices(v2)\<close> contains \<open>v1\<close> as well.
\<close>

theorem asg_add_edge_then_adjacent:
  assumes "asg_reachable g"
    and "0 \<le> v1" "v1 < nbvertices g" "0 \<le> v2" "v2 < nbvertices g"
    and "v1 \<noteq> v2"
  shows "\<exists>g'. asg_add_edge g v1 v2 1 = (Inr (), g')
     \<and> (\<exists>xs. asg_get_adjacent_vertices g' v1 = Inr xs \<and> v2 \<in> set xs)
     \<and> (directed g = False \<longrightarrow>
          (\<exists>ys. asg_get_adjacent_vertices g' v2 = Inr ys \<and> v1 \<in> set ys))"
  using asg_reachable_wf [OF assms(1)] assms(2-) by (rule asg_add_edge_adjacent_wf)

theorem asg_add_edge_then_adjacent_witness:
  "\<exists>g'. asg_add_edge (asg_init 3 False) 0 1 1 = (Inr (), g')
     \<and> (\<exists>xs. asg_get_adjacent_vertices g' 0 = Inr xs \<and> 1 \<in> set xs)
     \<and> (\<exists>ys. asg_get_adjacent_vertices g' 1 = Inr ys \<and> 0 \<in> set ys)"
  using asg_add_edge_then_adjacent [OF asg_reach_init, of 0 3 False 1]
  by (simp add: asg_init_def)

text \<open>
  C3. In both representations \<open>add_edge\<close>, \<open>get_adjacent_vertices\<close> and \<open>get_indegree\<close>
  raise the out-of-bounds error whenever a vertex argument is negative or at least the
  number of vertices. The check comes first in each method, so this holds in every state
  of the graph, whatever the weight, and also without the assumption \<open>N > 0\<close>; a raising
  \<open>add_edge\<close> leaves the graph as it was.
\<close>

theorem out_of_bounds_raised:
  "(v1 < 0 \<or> v1 \<ge> nbvertices g \<or> v2 < 0 \<or> v2 \<ge> nbvertices g \<longrightarrow>
      asg_add_edge g v1 v2 w = (Inl OutOfBounds, g))
   \<and> (v < 0 \<or> v \<ge> nbvertices g \<longrightarrow>
      asg_get_adjacent_vertices g v = Inl OutOfBounds \<and> asg_get_indegree g v = Inl OutOfBounds)
   \<and> (v1 < 0 \<or> v1 \<ge> nbvertices_m m \<or> v2 < 0 \<or> v2 \<ge> nbvertices_m m \<longrightarrow>
      amg_add_edge m v1 v2 w = (Inl OutOfBounds, m))
   \<and> (v < 0 \<or> v \<ge> nbvertices_m m \<longrightarrow>
      amg_get_adjacent_vertices m v = Inl OutOfBounds \<and> amg_get_indegree m v = Inl OutOfBounds)"
  by (auto simp: asg_add_edge_def asg_get_adjacent_vertices_def asg_get_indegree_def
      amg_add_edge_def amg_get_adjacent_vertices_def amg_get_indegree_def)

theorem out_of_bounds_raised_witness:
  "fst (asg_add_edge (asg_init 3 False) (- 1) 0 1) = Inl OutOfBounds
   \<and> fst (asg_add_edge (asg_init 3 False) 3 0 1) = Inl OutOfBounds
   \<and> asg_get_adjacent_vertices (asg_init 3 False) (- 1) = Inl OutOfBounds
   \<and> asg_get_adjacent_vertices (asg_init 3 False) 3 = Inl OutOfBounds
   \<and> asg_get_indegree (asg_init 3 False) (- 1) = Inl OutOfBounds
   \<and> fst (amg_add_edge \<lparr>nbvertices_m = 2, directed_m = False, matrix = [[0, 0], [0, 0]]\<rparr> (- 1) 0 1)
       = Inl OutOfBounds
   \<and> fst (amg_add_edge \<lparr>nbvertices_m = 2, directed_m = False, matrix = [[0, 0], [0, 0]]\<rparr> 2 0 1)
       = Inl OutOfBounds
   \<and> amg_get_adjacent_vertices \<lparr>nbvertices_m = 2, directed_m = False, matrix = [[0, 0], [0, 0]]\<rparr> (- 1)
       = Inl OutOfBounds
   \<and> amg_get_adjacent_vertices \<lparr>nbvertices_m = 2, directed_m = False, matrix = [[0, 0], [0, 0]]\<rparr> 2
       = Inl OutOfBounds
   \<and> amg_get_indegree \<lparr>nbvertices_m = 2, directed_m = False, matrix = [[0, 0], [0, 0]]\<rparr> (- 1)
       = Inl OutOfBounds"
proof -
  let ?g = "asg_init 3 False"
  let ?m = "\<lparr>nbvertices_m = 2, directed_m = False, matrix = [[0, 0], [0, 0]]\<rparr>"
  have n: "nbvertices ?g = 3" by (simp add: asg_init_def)
  show ?thesis
    using out_of_bounds_raised [where g = ?g and m = ?m and ?v1.0 = "- 1" and ?v2.0 = 0
        and w = 1 and v = "- 1"]
      out_of_bounds_raised [where g = ?g and m = ?m and ?v1.0 = 3 and ?v2.0 = 0
        and w = 1 and v = 3]
      out_of_bounds_raised [where g = ?g and m = ?m and ?v1.0 = 2 and ?v2.0 = 0
        and w = 1 and v = 2]
    by (simp add: n)
qed

text \<open>
  C4. \<open>add_edge\<close> raises the weight error exactly when the vertex arguments are in bounds
  and the weight does not fit the representation: a weight other than 1 for the adjacency
  set, a weight below 1 for the adjacency matrix.
\<close>

theorem weight_not_supported_iff:
  "(fst (asg_add_edge g v1 v2 w) = Inl WeightNotSupported \<longleftrightarrow>
      0 \<le> v1 \<and> v1 < nbvertices g \<and> 0 \<le> v2 \<and> v2 < nbvertices g \<and> w \<noteq> 1)
   \<and> (fst (amg_add_edge m v1 v2 w) = Inl WeightNotSupported \<longleftrightarrow>
      0 \<le> v1 \<and> v1 < nbvertices_m m \<and> 0 \<le> v2 \<and> v2 < nbvertices_m m \<and> w < 1)"
  using asg_add_edge_weight_iff [of g v1 v2 w] amg_add_edge_weight_iff [of m v1 v2 w]
  by (rule conjI)

theorem weight_not_supported_iff_witness:
  "fst (asg_add_edge (asg_init 3 False) 0 1 2) = Inl WeightNotSupported
   \<and> fst (amg_add_edge \<lparr>nbvertices_m = 2, directed_m = False, matrix = [[0, 0], [0, 0]]\<rparr> 0 1 0)
       = Inl WeightNotSupported"
proof -
  let ?g = "asg_init 3 False"
  let ?m = "\<lparr>nbvertices_m = 2, directed_m = False, matrix = [[0, 0], [0, 0]]\<rparr>"
  have n: "nbvertices ?g = 3" by (simp add: asg_init_def)
  show ?thesis
    using weight_not_supported_iff [where g = ?g and m = ?m and ?v1.0 = 0 and ?v2.0 = 1 and w = 2]
      weight_not_supported_iff [where g = ?g and m = ?m and ?v1.0 = 0 and ?v2.0 = 1 and w = 0]
    by (simp add: n)
qed




text \<open>
  C6. Indegree consistency: in both representations, for every reachable graph and every
  in-bounds \<open>v\<close>, \<open>get_indegree(v)\<close> returns the number of vertices \<open>u\<close> in \<open>[0, N)\<close>
  (\<open>u = v\<close> included) such that \<open>get_adjacent_vertices(u)\<close> returns a list containing \<open>v\<close>.
\<close>

theorem indegree_counts_sources:
  "(asg_reachable g \<and> 0 \<le> v \<and> v < nbvertices g \<longrightarrow>
      asg_get_indegree g v =
        Inr (int (card {u. 0 \<le> u \<and> u < nbvertices g \<and>
          (\<exists>xs. asg_get_adjacent_vertices g u = Inr xs \<and> v \<in> set xs)})))
   \<and> (amg_reachable m \<and> 0 \<le> v' \<and> v' < nbvertices_m m \<longrightarrow>
      amg_get_indegree m v' =
        Inr (int (card {u. 0 \<le> u \<and> u < nbvertices_m m \<and>
          (\<exists>xs. amg_get_adjacent_vertices m u = Inr xs \<and> v' \<in> set xs)})))"
proof (intro conjI impI)
  assume a: "asg_reachable g \<and> 0 \<le> v \<and> v < nbvertices g"
  then have "asg_wf g" by (simp add: asg_reachable_wf)
  then show "asg_get_indegree g v =
      Inr (int (card {u. 0 \<le> u \<and> u < nbvertices g \<and>
        (\<exists>xs. asg_get_adjacent_vertices g u = Inr xs \<and> v \<in> set xs)}))"
    using a by (intro asg_indegree_card) simp_all
next
  assume a: "amg_reachable m \<and> 0 \<le> v' \<and> v' < nbvertices_m m"
  then have "amg_wf m" by (simp add: amg_reachable_wf)
  then show "amg_get_indegree m v' =
      Inr (int (card {u. 0 \<le> u \<and> u < nbvertices_m m \<and>
        (\<exists>xs. amg_get_adjacent_vertices m u = Inr xs \<and> v' \<in> set xs)}))"
    using a by (intro amg_indegree_card) simp_all
qed

theorem indegree_counts_sources_witness:
  "Inr 1 = asg_get_indegree (snd (asg_add_edge (asg_init 3 False) 0 1 1)) 1
   \<and> asg_get_indegree (snd (asg_add_edge (asg_init 3 False) 0 1 1)) 1 =
      Inr (int (card {u. 0 \<le> u
        \<and> u < nbvertices (snd (asg_add_edge (asg_init 3 False) 0 1 1))
        \<and> (\<exists>xs. asg_get_adjacent_vertices (snd (asg_add_edge (asg_init 3 False) 0 1 1)) u = Inr xs
              \<and> 1 \<in> set xs)}))
   \<and> Inr 1 = amg_get_indegree (snd (amg_add_edge (snd (amg_add_edge (snd (amg_add_edge
        \<lparr>nbvertices_m = 4, directed_m = True,
          matrix = [[0, 0, 0, 0], [0, 0, 0, 0], [0, 0, 0, 0], [0, 0, 0, 0]]\<rparr>
        0 1 43)) 0 2 55)) 2 3 10)) 3
   \<and> amg_get_indegree (snd (amg_add_edge (snd (amg_add_edge (snd (amg_add_edge
        \<lparr>nbvertices_m = 4, directed_m = True,
          matrix = [[0, 0, 0, 0], [0, 0, 0, 0], [0, 0, 0, 0], [0, 0, 0, 0]]\<rparr>
        0 1 43)) 0 2 55)) 2 3 10)) 3 =
      Inr (int (card {u. 0 \<le> u
        \<and> u < nbvertices_m (snd (amg_add_edge (snd (amg_add_edge (snd (amg_add_edge
            \<lparr>nbvertices_m = 4, directed_m = True,
              matrix = [[0, 0, 0, 0], [0, 0, 0, 0], [0, 0, 0, 0], [0, 0, 0, 0]]\<rparr>
            0 1 43)) 0 2 55)) 2 3 10))
        \<and> (\<exists>xs. amg_get_adjacent_vertices (snd (amg_add_edge (snd (amg_add_edge (snd (amg_add_edge
            \<lparr>nbvertices_m = 4, directed_m = True,
              matrix = [[0, 0, 0, 0], [0, 0, 0, 0], [0, 0, 0, 0], [0, 0, 0, 0]]\<rparr>
            0 1 43)) 0 2 55)) 2 3 10)) u = Inr xs
              \<and> 3 \<in> set xs)}))"
proof -
  let ?g = "snd (asg_add_edge (asg_init 3 False) 0 1 1)"
  let ?z = "\<lparr>nbvertices_m = 4, directed_m = True,
    matrix = [[0, 0, 0, 0], [0, 0, 0, 0], [0, 0, 0, 0], [0, 0, 0, 0]]\<rparr>"
  let ?m = "snd (amg_add_edge (snd (amg_add_edge (snd (amg_add_edge ?z 0 1 43)) 0 2 55)) 2 3 10)"
  have rg: "asg_reachable ?g" by (intro asg_reach_add asg_reach_init)
  have ng: "nbvertices ?g = 3" by code_simp
  have "amg_init 4 True = Inr ?z" by code_simp
  then have "amg_reachable ?z" by (rule amg_reach_init)
  then have rm: "amg_reachable ?m" by (intro amg_reach_add)
  have nm: "nbvertices_m ?m = 4" by (simp add: amg_add_edge_fields)
  have e1: "Inr 1 = asg_get_indegree ?g 1" by code_simp
  have e2: "Inr 1 = amg_get_indegree ?m 3"
    by (simp add: amg_add_edge_def matrix_set_def amg_get_indegree_def matrix_get_def
        index_pos_def py_range_def upto.simps float64_of_small)
  have c1: "asg_get_indegree ?g 1 =
      Inr (int (card {u. 0 \<le> u \<and> u < nbvertices ?g
        \<and> (\<exists>xs. asg_get_adjacent_vertices ?g u = Inr xs \<and> 1 \<in> set xs)}))"
    using indegree_counts_sources [where g = ?g and v = 1, THEN conjunct1] rg ng by simp
  have c2: "amg_get_indegree ?m 3 =
      Inr (int (card {u. 0 \<le> u \<and> u < nbvertices_m ?m
        \<and> (\<exists>xs. amg_get_adjacent_vertices ?m u = Inr xs \<and> 3 \<in> set xs)}))"
    using indegree_counts_sources [where m = ?m and v' = 3, THEN conjunct2] rm nm by simp
  show ?thesis using e1 c1 e2 c2 by (intro conjI)
qed

text \<open>
  C7. Atomicity on error: in both representations, whenever \<open>add_edge\<close> on a reachable
  graph raises, whatever the error, the graph is exactly as it was before the call: an
  undirected adjacency-set \<open>add_edge\<close> that fails has added neither direction. The graph
  is then still a reachable one, so every later call behaves as on the graph before.
\<close>

theorem add_edge_error_atomic:
  "(asg_reachable g \<and> fst (asg_add_edge g v1 v2 w) = Inl e \<longrightarrow>
      snd (asg_add_edge g v1 v2 w) = g \<and> asg_reachable (snd (asg_add_edge g v1 v2 w)))
   \<and> (amg_reachable m \<and> fst (amg_add_edge m v1 v2 w) = Inl e' \<longrightarrow>
      snd (amg_add_edge m v1 v2 w) = m \<and> amg_reachable (snd (amg_add_edge m v1 v2 w)))"
proof (intro conjI impI)
  assume a: "asg_reachable g \<and> fst (asg_add_edge g v1 v2 w) = Inl e"
  then show "snd (asg_add_edge g v1 v2 w) = g"
    by (intro asg_add_edge_atomic_wf [where e = e]) (simp_all add: asg_reachable_wf)
  show "asg_reachable (snd (asg_add_edge g v1 v2 w))"
    using a by (intro asg_reach_add) simp
next
  assume a: "amg_reachable m \<and> fst (amg_add_edge m v1 v2 w) = Inl e'"
  then show "snd (amg_add_edge m v1 v2 w) = m"
    by (intro amg_add_edge_atomic_wf [where e = e']) (simp_all add: amg_reachable_wf)
  show "amg_reachable (snd (amg_add_edge m v1 v2 w))"
    using a by (intro amg_reach_add) simp
qed

theorem add_edge_error_atomic_witness:
  "fst (asg_add_edge (snd (asg_add_edge (asg_init 3 False) 0 1 1)) 2 2 1) = Inl SelfLoopError
   \<and> snd (asg_add_edge (snd (asg_add_edge (asg_init 3 False) 0 1 1)) 2 2 1)
       = snd (asg_add_edge (asg_init 3 False) 0 1 1)
   \<and> fst (asg_add_edge (snd (asg_add_edge (asg_init 3 False) 0 1 1)) 1 2 2) = Inl WeightNotSupported
   \<and> snd (asg_add_edge (snd (asg_add_edge (asg_init 3 False) 0 1 1)) 1 2 2)
       = snd (asg_add_edge (asg_init 3 False) 0 1 1)
   \<and> fst (asg_add_edge (snd (asg_add_edge (asg_init 3 False) 0 1 1)) 1 3 1) = Inl OutOfBounds
   \<and> snd (asg_add_edge (snd (asg_add_edge (asg_init 3 False) 0 1 1)) 1 3 1)
       = snd (asg_add_edge (asg_init 3 False) 0 1 1)
   \<and> fst (amg_add_edge \<lparr>nbvertices_m = 2, directed_m = False, matrix = [[0, 0], [0, 0]]\<rparr> 0 1 0)
       = Inl WeightNotSupported
   \<and> snd (amg_add_edge \<lparr>nbvertices_m = 2, directed_m = False, matrix = [[0, 0], [0, 0]]\<rparr> 0 1 0)
       = \<lparr>nbvertices_m = 2, directed_m = False, matrix = [[0, 0], [0, 0]]\<rparr>
   \<and> fst (amg_add_edge \<lparr>nbvertices_m = 2, directed_m = False, matrix = [[0, 0], [0, 0]]\<rparr> 0 2 7)
       = Inl OutOfBounds
   \<and> snd (amg_add_edge \<lparr>nbvertices_m = 2, directed_m = False, matrix = [[0, 0], [0, 0]]\<rparr> 0 2 7)
       = \<lparr>nbvertices_m = 2, directed_m = False, matrix = [[0, 0], [0, 0]]\<rparr>"
proof -
  let ?g = "snd (asg_add_edge (asg_init 3 False) 0 1 1)"
  let ?m = "\<lparr>nbvertices_m = 2, directed_m = False, matrix = [[0, 0], [0, 0]]\<rparr>"
  have rg: "asg_reachable ?g" by (intro asg_reach_add asg_reach_init)
  have "amg_init 2 False = Inr ?m" by code_simp
  then have rm: "amg_reachable ?m" by (rule amg_reach_init)
  have f1: "fst (asg_add_edge ?g 2 2 1) = Inl SelfLoopError" by code_simp
  have f2: "fst (asg_add_edge ?g 1 2 2) = Inl WeightNotSupported" by code_simp
  have f3: "fst (asg_add_edge ?g 1 3 1) = Inl OutOfBounds" by code_simp
  have f4: "fst (amg_add_edge ?m 0 1 0) = Inl WeightNotSupported" by code_simp
  have f5: "fst (amg_add_edge ?m 0 2 7) = Inl OutOfBounds" by code_simp
  have s1: "snd (asg_add_edge ?g 2 2 1) = ?g"
    using add_edge_error_atomic [where g = ?g and ?v1.0 = 2 and ?v2.0 = 2 and w = 1
        and e = SelfLoopError, THEN conjunct1] rg f1 by blast
  have s2: "snd (asg_add_edge ?g 1 2 2) = ?g"
    using add_edge_error_atomic [where g = ?g and ?v1.0 = 1 and ?v2.0 = 2 and w = 2
        and e = WeightNotSupported, THEN conjunct1] rg f2 by blast
  have s3: "snd (asg_add_edge ?g 1 3 1) = ?g"
    using add_edge_error_atomic [where g = ?g and ?v1.0 = 1 and ?v2.0 = 3 and w = 1
        and e = OutOfBounds, THEN conjunct1] rg f3 by blast
  have s4: "snd (amg_add_edge ?m 0 1 0) = ?m"
    using add_edge_error_atomic [where m = ?m and ?v1.0 = 0 and ?v2.0 = 1 and w = 0
        and e' = WeightNotSupported, THEN conjunct2] rm f4 by blast
  have s5: "snd (amg_add_edge ?m 0 2 7) = ?m"
    using add_edge_error_atomic [where m = ?m and ?v1.0 = 0 and ?v2.0 = 2 and w = 7
        and e' = OutOfBounds, THEN conjunct2] rm f5 by blast
  show ?thesis using f1 s1 f2 s2 f3 s3 f4 s4 f5 s5 by (intro conjI)
qed

text \<open>
  C8. Idempotence: in both representations, when \<open>add_edge(v1, v2, w)\<close> returns on a
  reachable graph, a second call with the same arguments returns as well and leaves the
  graph as the first call left it.
\<close>

theorem add_edge_idempotent:
  "(asg_reachable g \<and> fst (asg_add_edge g v1 v2 w) = Inr () \<longrightarrow>
      asg_add_edge (snd (asg_add_edge g v1 v2 w)) v1 v2 w = asg_add_edge g v1 v2 w)
   \<and> (amg_reachable m \<and> fst (amg_add_edge m v1 v2 w) = Inr () \<longrightarrow>
      amg_add_edge (snd (amg_add_edge m v1 v2 w)) v1 v2 w = amg_add_edge m v1 v2 w)"
proof (intro conjI impI)
  assume "asg_reachable g \<and> fst (asg_add_edge g v1 v2 w) = Inr ()"
  then show "asg_add_edge (snd (asg_add_edge g v1 v2 w)) v1 v2 w = asg_add_edge g v1 v2 w"
    by (intro asg_add_edge_idem_wf) (simp_all add: asg_reachable_wf)
next
  assume "amg_reachable m \<and> fst (amg_add_edge m v1 v2 w) = Inr ()"
  then show "amg_add_edge (snd (amg_add_edge m v1 v2 w)) v1 v2 w = amg_add_edge m v1 v2 w"
    by (intro amg_add_edge_idem_wf) (simp_all add: amg_reachable_wf)
qed

theorem add_edge_idempotent_witness:
  "fst (asg_add_edge (asg_init 3 False) 0 1 1) = Inr ()
   \<and> asg_add_edge (snd (asg_add_edge (asg_init 3 False) 0 1 1)) 0 1 1
       = asg_add_edge (asg_init 3 False) 0 1 1
   \<and> fst (amg_add_edge \<lparr>nbvertices_m = 2, directed_m = False, matrix = [[0, 0], [0, 0]]\<rparr> 0 1 43)
       = Inr ()
   \<and> amg_add_edge
        (snd (amg_add_edge \<lparr>nbvertices_m = 2, directed_m = False, matrix = [[0, 0], [0, 0]]\<rparr> 0 1 43))
        0 1 43
       = amg_add_edge \<lparr>nbvertices_m = 2, directed_m = False, matrix = [[0, 0], [0, 0]]\<rparr> 0 1 43"
proof -
  let ?g = "asg_init 3 False"
  let ?m = "\<lparr>nbvertices_m = 2, directed_m = False, matrix = [[0, 0], [0, 0]]\<rparr>"
  have rg: "asg_reachable ?g" by (rule asg_reach_init)
  have "amg_init 2 False = Inr ?m" by code_simp
  then have rm: "amg_reachable ?m" by (rule amg_reach_init)
  have f1: "fst (asg_add_edge ?g 0 1 1) = Inr ()" by code_simp
  have f2: "fst (amg_add_edge ?m 0 1 43) = Inr ()"
    by (simp add: amg_add_edge_def matrix_set_def index_pos_def float64_of_small)
  have s1: "asg_add_edge (snd (asg_add_edge ?g 0 1 1)) 0 1 1 = asg_add_edge ?g 0 1 1"
    using add_edge_idempotent [where g = ?g and ?v1.0 = 0 and ?v2.0 = 1 and w = 1,
        THEN conjunct1] rg f1 by blast
  have s2: "amg_add_edge (snd (amg_add_edge ?m 0 1 43)) 0 1 43 = amg_add_edge ?m 0 1 43"
    using add_edge_idempotent [where m = ?m and ?v1.0 = 0 and ?v2.0 = 1 and w = 43,
        THEN conjunct2] rm f2 by blast
  show ?thesis using f1 s1 f2 s2 by (intro conjI)
qed

text \<open>
  C10. The adjacency matrix's \<open>get_edge_weight\<close> checks no bounds of its own: it only
  indexes the array. On a reachable graph of \<open>N\<close> vertices an in-bounds pair reads its
  cell; an argument in \<open>[-N, -1]\<close> reads the cell of \<open>N +\<close> that argument, so the call
  returns the weight stored for another vertex without any error; and an argument that is
  at least \<open>N\<close> or below \<open>-N\<close> raises the array's index error, not the out-of-bounds
  error of the other methods.
\<close>

theorem amg_get_edge_weight_unchecked:
  assumes "amg_reachable g"
  shows "(0 \<le> v1 \<and> v1 < nbvertices_m g \<and> 0 \<le> v2 \<and> v2 < nbvertices_m g \<longrightarrow>
            amg_get_edge_weight g v1 v2 = Inr (matrix g ! nat v1 ! nat v2))
    \<and> (- nbvertices_m g \<le> v1 \<and> v1 < 0 \<and> - nbvertices_m g \<le> v2 \<and> v2 < nbvertices_m g \<longrightarrow>
            amg_get_edge_weight g v1 v2 = amg_get_edge_weight g (nbvertices_m g + v1) v2
            \<and> (\<exists>x. amg_get_edge_weight g v1 v2 = Inr x))
    \<and> (- nbvertices_m g \<le> v1 \<and> v1 < nbvertices_m g \<and> - nbvertices_m g \<le> v2 \<and> v2 < 0 \<longrightarrow>
            amg_get_edge_weight g v1 v2 = amg_get_edge_weight g v1 (nbvertices_m g + v2)
            \<and> (\<exists>x. amg_get_edge_weight g v1 v2 = Inr x))
    \<and> (v1 \<ge> nbvertices_m g \<or> v1 < - nbvertices_m g
          \<or> v2 \<ge> nbvertices_m g \<or> v2 < - nbvertices_m g \<longrightarrow>
            amg_get_edge_weight g v1 v2 = Inl IndexError
            \<and> amg_get_edge_weight g v1 v2 \<noteq> Inl OutOfBounds)"
proof -
  have wf: "amg_wf g" using assms by (rule amg_reachable_wf)
  have c: "amg_get_edge_weight g a b =
     (if - nbvertices_m g \<le> a \<and> a < nbvertices_m g \<and> - nbvertices_m g \<le> b \<and> b < nbvertices_m g
      then Inr (matrix g ! nat (if a < 0 then a + nbvertices_m g else a)
                         ! nat (if b < 0 then b + nbvertices_m g else b))
      else Inl IndexError)" for a b
    using wf by (rule amg_get_edge_weight_cases)
  have p1: "0 \<le> v1 \<and> v1 < nbvertices_m g \<and> 0 \<le> v2 \<and> v2 < nbvertices_m g \<longrightarrow>
            amg_get_edge_weight g v1 v2 = Inr (matrix g ! nat v1 ! nat v2)"
    by (simp add: c)
  have p2: "- nbvertices_m g \<le> v1 \<and> v1 < 0 \<and> - nbvertices_m g \<le> v2 \<and> v2 < nbvertices_m g \<longrightarrow>
            amg_get_edge_weight g v1 v2 = amg_get_edge_weight g (nbvertices_m g + v1) v2
            \<and> (\<exists>x. amg_get_edge_weight g v1 v2 = Inr x)"
    by (simp add: c add.commute)
  have p3: "- nbvertices_m g \<le> v1 \<and> v1 < nbvertices_m g \<and> - nbvertices_m g \<le> v2 \<and> v2 < 0 \<longrightarrow>
            amg_get_edge_weight g v1 v2 = amg_get_edge_weight g v1 (nbvertices_m g + v2)
            \<and> (\<exists>x. amg_get_edge_weight g v1 v2 = Inr x)"
    by (simp add: c add.commute)
  have p4: "v1 \<ge> nbvertices_m g \<or> v1 < - nbvertices_m g
          \<or> v2 \<ge> nbvertices_m g \<or> v2 < - nbvertices_m g \<longrightarrow>
            amg_get_edge_weight g v1 v2 = Inl IndexError
            \<and> amg_get_edge_weight g v1 v2 \<noteq> Inl OutOfBounds"
    by (auto simp: c)
  show ?thesis using p1 p2 p3 p4 by (intro conjI)
qed

theorem amg_get_edge_weight_unchecked_witness:
  "amg_get_edge_weight (snd (amg_add_edge (snd (amg_add_edge (snd (amg_add_edge
      \<lparr>nbvertices_m = 4, directed_m = True,
        matrix = [[0, 0, 0, 0], [0, 0, 0, 0], [0, 0, 0, 0], [0, 0, 0, 0]]\<rparr>
      0 1 43)) 0 2 55)) 2 3 10)) (- 2) 3
     = amg_get_edge_weight (snd (amg_add_edge (snd (amg_add_edge (snd (amg_add_edge
      \<lparr>nbvertices_m = 4, directed_m = True,
        matrix = [[0, 0, 0, 0], [0, 0, 0, 0], [0, 0, 0, 0], [0, 0, 0, 0]]\<rparr>
      0 1 43)) 0 2 55)) 2 3 10)) 2 3
   \<and> amg_get_edge_weight (snd (amg_add_edge (snd (amg_add_edge (snd (amg_add_edge
      \<lparr>nbvertices_m = 4, directed_m = True,
        matrix = [[0, 0, 0, 0], [0, 0, 0, 0], [0, 0, 0, 0], [0, 0, 0, 0]]\<rparr>
      0 1 43)) 0 2 55)) 2 3 10)) 2 3 = Inr 10
   \<and> amg_get_edge_weight (snd (amg_add_edge (snd (amg_add_edge (snd (amg_add_edge
      \<lparr>nbvertices_m = 4, directed_m = True,
        matrix = [[0, 0, 0, 0], [0, 0, 0, 0], [0, 0, 0, 0], [0, 0, 0, 0]]\<rparr>
      0 1 43)) 0 2 55)) 2 3 10)) 0 (- 2)
     = amg_get_edge_weight (snd (amg_add_edge (snd (amg_add_edge (snd (amg_add_edge
      \<lparr>nbvertices_m = 4, directed_m = True,
        matrix = [[0, 0, 0, 0], [0, 0, 0, 0], [0, 0, 0, 0], [0, 0, 0, 0]]\<rparr>
      0 1 43)) 0 2 55)) 2 3 10)) 0 2
   \<and> amg_get_edge_weight (snd (amg_add_edge (snd (amg_add_edge (snd (amg_add_edge
      \<lparr>nbvertices_m = 4, directed_m = True,
        matrix = [[0, 0, 0, 0], [0, 0, 0, 0], [0, 0, 0, 0], [0, 0, 0, 0]]\<rparr>
      0 1 43)) 0 2 55)) 2 3 10)) 0 2 = Inr 55
   \<and> amg_get_edge_weight (snd (amg_add_edge (snd (amg_add_edge (snd (amg_add_edge
      \<lparr>nbvertices_m = 4, directed_m = True,
        matrix = [[0, 0, 0, 0], [0, 0, 0, 0], [0, 0, 0, 0], [0, 0, 0, 0]]\<rparr>
      0 1 43)) 0 2 55)) 2 3 10)) 4 0 = Inl IndexError
   \<and> amg_get_edge_weight (snd (amg_add_edge (snd (amg_add_edge (snd (amg_add_edge
      \<lparr>nbvertices_m = 4, directed_m = True,
        matrix = [[0, 0, 0, 0], [0, 0, 0, 0], [0, 0, 0, 0], [0, 0, 0, 0]]\<rparr>
      0 1 43)) 0 2 55)) 2 3 10)) 0 (- 5) = Inl IndexError"
proof -
  let ?z = "\<lparr>nbvertices_m = 4, directed_m = True,
    matrix = [[0, 0, 0, 0], [0, 0, 0, 0], [0, 0, 0, 0], [0, 0, 0, 0]]\<rparr>"
  let ?m = "snd (amg_add_edge (snd (amg_add_edge (snd (amg_add_edge ?z 0 1 43)) 0 2 55)) 2 3 10)"
  have "amg_init 4 True = Inr ?z" by code_simp
  then have "amg_reachable ?z" by (rule amg_reach_init)
  then have rm: "amg_reachable ?m" by (intro amg_reach_add)
  have nm: "nbvertices_m ?m = 4" by (simp add: amg_add_edge_fields)
  have e1: "amg_get_edge_weight ?m 2 3 = Inr 10"
    by (simp add: amg_add_edge_def matrix_set_def amg_get_edge_weight_def matrix_get_def
        index_pos_def float64_of_small)
  have e2: "amg_get_edge_weight ?m 0 2 = Inr 55"
    by (simp add: amg_add_edge_def matrix_set_def amg_get_edge_weight_def matrix_get_def
        index_pos_def float64_of_small)
  have w1: "amg_get_edge_weight ?m (- 2) 3 = amg_get_edge_weight ?m 2 3"
    using amg_get_edge_weight_unchecked [OF rm, where ?v1.0 = "- 2" and ?v2.0 = 3] nm by simp
  have w2: "amg_get_edge_weight ?m 0 (- 2) = amg_get_edge_weight ?m 0 2"
    using amg_get_edge_weight_unchecked [OF rm, where ?v1.0 = 0 and ?v2.0 = "- 2"] nm by simp
  have w3: "amg_get_edge_weight ?m 4 0 = Inl IndexError"
    using amg_get_edge_weight_unchecked [OF rm, where ?v1.0 = 4 and ?v2.0 = 0] nm by simp
  have w4: "amg_get_edge_weight ?m 0 (- 5) = Inl IndexError"
    using amg_get_edge_weight_unchecked [OF rm, where ?v1.0 = 0 and ?v2.0 = "- 5"] nm by simp
  show ?thesis using w1 e1 w2 e2 w3 w4 by (intro conjI)
qed

end
